theory Spec2Isabelle
  imports Complex_Main
begin

section \<open>Python values\<close>

text \<open>
  Python floats are idealised as real numbers: every arithmetic step is exact, there is no
  rounding, no overflow and no NaN. Python integers are \<open>int\<close>. The only exception the
  arithmetic of the modelled functions can raise is the one of a float division by zero, so
  a division returns a value of a sum type.
\<close>

datatype py_error = ZeroDivisionError

definition truediv :: "real \<Rightarrow> real \<Rightarrow> py_error + real" where
  \<comment> \<open>\<open>a / b\<close> on floats\<close>
  "truediv a b = (if b = 0 then Inl ZeroDivisionError else Inr (a / b))"

definition py_int :: "real \<Rightarrow> int" where
  \<comment> \<open>\<open>int(x)\<close> on a float: truncation towards zero\<close>
  "py_int x = (if 0 \<le> x then \<lfloor>x\<rfloor> else \<lceil>x\<rceil>)"

definition linspace :: "real \<Rightarrow> real \<Rightarrow> nat \<Rightarrow> real list" where
  \<comment> \<open>\<open>numpy.linspace(start, stop, num)\<close> with the endpoint included: \<open>num\<close> samples
      \<open>start + i * step\<close> with \<open>step = (stop - start) / (num - 1)\<close>; a single sample is
      \<open>start\<close>. The callers pass a count that is at least 1.\<close>
  "linspace start stop num =
     (if num = 1 then [start]
      else map (\<lambda>i. start + real i * ((stop - start) / real (num - 1))) [0..<num])"


section \<open>models/pattern\_calculator.py\<close>

text \<open>
  The inner loop of both pattern functions (lines 37--43 and 89--95): every position of the
  row is appended to the two result lists, and the function returns as soon as the limit
  is reached after an append. The Boolean of the result says whether the function returned
  from inside the loop.
\<close>

fun row_loop ::
  "real \<Rightarrow> real list \<Rightarrow> int option \<Rightarrow> real list \<times> real list \<Rightarrow> bool \<times> real list \<times> real list"
where
  "row_loop y_pos [] num_holes acc = (False, acc)"
| "row_loop y_pos (x_pos # rest) num_holes (hole_positions_x, hole_positions_y) =
     (let hx = hole_positions_x @ [x_pos];
          hy = hole_positions_y @ [y_pos]
      in if (case num_holes of None \<Rightarrow> False | Some k \<Rightarrow> k \<le> int (length hx))
         then (True, hx, hy)
         else row_loop y_pos rest num_holes (hx, hy))"

text \<open>The outer loop of \<open>calculate_square_pattern\<close> (line 36).\<close>

fun square_loop ::
  "real list \<Rightarrow> real list \<Rightarrow> int option \<Rightarrow> real list \<times> real list \<Rightarrow> real list \<times> real list"
where
  "square_loop [] x_positions num_holes acc = acc"
| "square_loop (y_pos # ys) x_positions num_holes acc =
     (case row_loop y_pos x_positions num_holes acc of
        (True, acc') \<Rightarrow> acc'
      | (False, acc') \<Rightarrow> square_loop ys x_positions num_holes acc')"

definition calculate_square_pattern ::
  "real \<Rightarrow> real \<Rightarrow> real \<Rightarrow> real \<Rightarrow> int option
     \<Rightarrow> py_error + (real list \<times> real list \<times> int \<times> int)"
where
  "calculate_square_pattern len width burden spacing num_holes =
     (if burden \<le> 0 \<or> spacing \<le> 0 then Inr ([], [], 0, 0)
      else
        case truediv width burden of Inl e \<Rightarrow> Inl e | Inr qw \<Rightarrow>
        (case truediv len spacing of Inl e \<Rightarrow> Inl e | Inr ql \<Rightarrow>
          (let num_rows = max 1 (py_int qw);
               holes_per_row = max 1 (py_int ql);
               y_positions = linspace (burden / 2) (width - burden / 2) (nat num_rows);
               x_positions = linspace (spacing / 2) (len - spacing / 2) (nat holes_per_row);
               (hole_positions_x, hole_positions_y) =
                 square_loop y_positions x_positions num_holes ([], [])
           in Inr (hole_positions_x, hole_positions_y, num_rows, holes_per_row))))"

text \<open>
  The positions of one row of the staggered pattern (lines 81--86): rows with an even
  0-based index run from \<open>spacing / 2\<close> to \<open>len - spacing / 2\<close>, the others from
  \<open>spacing\<close> to \<open>len - spacing\<close>.
\<close>

definition staggered_x_positions :: "real \<Rightarrow> real \<Rightarrow> int \<Rightarrow> int \<Rightarrow> nat \<Rightarrow> real list" where
  "staggered_x_positions len spacing num_holes_per_row_odd num_holes_per_row_even row_idx =
     (if row_idx mod 2 = 0
      then linspace (spacing / 2) (len - spacing / 2) (nat num_holes_per_row_odd)
      else linspace spacing (len - spacing) (nat num_holes_per_row_even))"

text \<open>The outer loop of \<open>calculate_staggered_pattern\<close> (line 79), with the row index
  of \<open>enumerate\<close>.\<close>

fun staggered_loop ::
  "nat \<Rightarrow> real list \<Rightarrow> real \<Rightarrow> real \<Rightarrow> int \<Rightarrow> int \<Rightarrow> int option
     \<Rightarrow> real list \<times> real list \<Rightarrow> real list \<times> real list"
where
  "staggered_loop row_idx [] len spacing n_odd n_even num_holes acc = acc"
| "staggered_loop row_idx (y_pos # ys) len spacing n_odd n_even num_holes acc =
     (let x_positions = staggered_x_positions len spacing n_odd n_even row_idx
      in case row_loop y_pos x_positions num_holes acc of
           (True, acc') \<Rightarrow> acc'
         | (False, acc') \<Rightarrow>
             staggered_loop (Suc row_idx) ys len spacing n_odd n_even num_holes acc')"

definition calculate_staggered_pattern ::
  "real \<Rightarrow> real \<Rightarrow> real \<Rightarrow> real \<Rightarrow> int option
     \<Rightarrow> py_error + (real list \<times> real list \<times> int \<times> int \<times> int)"
where
  "calculate_staggered_pattern len width burden spacing num_holes =
     (if burden \<le> 0 \<or> spacing \<le> 0 then Inr ([], [], 0, 0, 0)
      else
        case truediv width burden of Inl e \<Rightarrow> Inl e | Inr qw \<Rightarrow>
        (case truediv (len - spacing / 2) spacing of Inl e \<Rightarrow> Inl e | Inr qo \<Rightarrow>
        (case truediv (len - spacing) spacing of Inl e \<Rightarrow> Inl e | Inr qe \<Rightarrow>
          (let num_rows = max 1 (py_int qw);
               y_positions = linspace (burden / 2) (width - burden / 2) (nat num_rows);
               num_holes_per_row_odd = max 1 (py_int qo + 1);
               num_holes_per_row_even = max 1 (py_int qe + 1);
               (hole_positions_x, hole_positions_y) =
                 staggered_loop 0 y_positions len spacing
                   num_holes_per_row_odd num_holes_per_row_even num_holes ([], [])
           in Inr (hole_positions_x, hole_positions_y, num_rows,
                   num_holes_per_row_odd, num_holes_per_row_even)))))"


section \<open>app.py: hole design, rock classification and charge\<close>

text \<open>The hole design formulas (lines 194 and 231--233); the diameter is the integer
  value of the slider, in millimetres.\<close>

definition calculated_burden :: "int \<Rightarrow> real" where
  "calculated_burden hole_diameter = 0.024 * of_int hole_diameter + 0.85"

definition calculated_subdrilling :: "int \<Rightarrow> real" where
  "calculated_subdrilling hole_diameter = 0.4 * calculated_burden hole_diameter"

definition calculated_stemming :: "int \<Rightarrow> real" where
  "calculated_stemming hole_diameter = 1.0 * calculated_burden hole_diameter"

definition calculated_hole_depth :: "real \<Rightarrow> int \<Rightarrow> real" where
  "calculated_hole_depth bench_height hole_diameter =
     bench_height + calculated_subdrilling hole_diameter"

text \<open>The rock classification (lines 284--303): hardness, UCS range and examples.\<close>

definition rock_classification :: "real \<Rightarrow> real \<Rightarrow> string \<times> string \<times> string" where
  "rock_classification p_wave_velocity rock_density =
     (if p_wave_velocity < 2.5 \<and> rock_density < 2.2
      then (''Very Soft'', ''<25 MPa'', ''Highly weathered rocks, soft sandstone'')
      else if p_wave_velocity < 3.5 \<and> rock_density < 2.5
      then (''Soft'', ''25-50 MPa'', ''Sandstone, shale, coal'')
      else if p_wave_velocity < 4.5 \<and> rock_density < 2.7
      then (''Medium'', ''50-100 MPa'', ''Limestone, dolomite'')
      else if p_wave_velocity < 5.5 \<and> rock_density < 2.9
      then (''Hard'', ''100-200 MPa'', ''Granite, gabbro, basalt'')
      else (''Very Hard'', ''>200 MPa'', ''Quartzite, dense basalt''))"

definition rock_hardness :: "real \<Rightarrow> real \<Rightarrow> string" where
  "rock_hardness p_wave_velocity rock_density =
     fst (rock_classification p_wave_velocity rock_density)"

text \<open>The explosive charge (lines 705--725). The subdrilling, the stemming, the density
  of the explosive in kg per cubic metre, the number of holes and the blast volume are the
  values of the script's variables at that point.\<close>

definition hole_diameter_m :: "int \<Rightarrow> real" where
  "hole_diameter_m hole_diameter = of_int hole_diameter / 1000"

definition explosive_column_length :: "real \<Rightarrow> real \<Rightarrow> real \<Rightarrow> real" where
  "explosive_column_length bench_height subdrilling stemming =
     bench_height + subdrilling - stemming"

definition available_hole_volume :: "int \<Rightarrow> real \<Rightarrow> real \<Rightarrow> real \<Rightarrow> real" where
  "available_hole_volume hole_diameter bench_height subdrilling stemming =
     pi * (hole_diameter_m hole_diameter)\<^sup>2 / 4
       * explosive_column_length bench_height subdrilling stemming"

definition charge_per_hole :: "real \<Rightarrow> int \<Rightarrow> real \<Rightarrow> real \<Rightarrow> real \<Rightarrow> real" where
  "charge_per_hole explosive_density hole_diameter bench_height subdrilling stemming =
     explosive_density * available_hole_volume hole_diameter bench_height subdrilling stemming"

definition powder_factor_vol_per_explosive :: "real \<Rightarrow> real \<Rightarrow> real" where
  "powder_factor_vol_per_explosive blast_volume total_explosive =
     (if total_explosive > 0 then blast_volume / total_explosive else 0)"

definition powder_factor_explosive_per_vol :: "real \<Rightarrow> real \<Rightarrow> real" where
  "powder_factor_explosive_per_vol blast_volume total_explosive =
     (if blast_volume > 0 then total_explosive / blast_volume else 0)"


section \<open>Row-major layouts\<close>

text \<open>
  Notions for stating what the loops build. \<open>rows_x f i ys\<close> and \<open>rows_y f i ys\<close> are
  the coordinates of the rows \<open>ys\<close> laid out one after the other, the row with index \<open>r\<close>
  having the positions \<open>f r\<close>, starting with index \<open>i\<close>; \<open>row_offset f i r\<close> is the
  number of holes before the \<open>r\<close>-th of these rows; \<open>limit\<close> is the cut that the limit on
  the number of holes makes.
\<close>

fun rows_x :: "(nat \<Rightarrow> real list) \<Rightarrow> nat \<Rightarrow> real list \<Rightarrow> real list" where
  "rows_x f i [] = []"
| "rows_x f i (y # ys) = f i @ rows_x f (Suc i) ys"

fun rows_y :: "(nat \<Rightarrow> real list) \<Rightarrow> nat \<Rightarrow> real list \<Rightarrow> real list" where
  "rows_y f i [] = []"
| "rows_y f i (y # ys) = replicate (length (f i)) y @ rows_y f (Suc i) ys"

definition limit :: "int option \<Rightarrow> 'a list \<Rightarrow> 'a list" where
  "limit num_holes xs = (case num_holes of None \<Rightarrow> xs | Some k \<Rightarrow> take (nat (max 1 k)) xs)"

fun row_offset :: "(nat \<Rightarrow> real list) \<Rightarrow> nat \<Rightarrow> nat \<Rightarrow> nat" where
  "row_offset f i 0 = 0"
| "row_offset f i (Suc r) = length (f i) + row_offset f (Suc i) r"


section \<open>Hole design\<close>

text \<open>
  C7: for a hole diameter of 200 mm the burden is 5.65 m, the subdrilling 2.26 m and the
  stemming 5.65 m; with a bench height of 10 m the hole depth is 12.26 m.
\<close>

theorem hole_design_200:
  "calculated_burden 200 = 5.65 \<and> calculated_burden 200 = 0.024 * 200 + 0.85
   \<and> calculated_subdrilling 200 = 2.26 \<and> calculated_stemming 200 = 5.65
   \<and> calculated_hole_depth 10 200 = 12.26"
  by (simp add: calculated_burden_def calculated_subdrilling_def calculated_stemming_def
      calculated_hole_depth_def)

section \<open>The loops of the pattern functions\<close>

lemma below_limit: "\<not> max 1 k \<le> int n \<Longrightarrow> n = 0 \<or> int n < k"
  by linarith

lemma row_loop_None:
  "row_loop y xs None (hx, hy) = (False, hx @ xs, hy @ replicate (length xs) y)"
  by (induction xs arbitrary: hx hy) (simp_all add: replicate_app_Cons_same)

lemma row_loop_Some:
  assumes "hx = [] \<or> int (length hx) < k" and "length hy = length hx"
  shows "row_loop y xs (Some k) (hx, hy) =
           (if max 1 k \<le> int (length hx + length xs)
            then (True, take (nat (max 1 k)) (hx @ xs),
                        take (nat (max 1 k)) (hy @ replicate (length xs) y))
            else (False, hx @ xs, hy @ replicate (length xs) y))"
  using assms
proof (induction xs arbitrary: hx hy)
  case Nil
  then show ?case by auto
next
  case (Cons x xs)
  show ?case
  proof (cases "k \<le> int (length hx) + 1")
    case True
    with Cons.prems have m: "nat (max 1 k) = Suc (length hx)" by auto
    from True m Cons.prems show ?thesis by (simp add: Let_def)
  next
    case False
    then have inv: "hx @ [x] = [] \<or> int (length (hx @ [x])) < k" by simp
    have len: "length (hy @ [y]) = length (hx @ [x])" using Cons.prems by simp
    from False show ?thesis
      using Cons.IH [OF inv len] by (simp add: Let_def replicate_app_Cons_same)
  qed
qed

lemma length_rows_y: "length (rows_y f i ys) = length (rows_x f i ys)"
  by (induction ys arbitrary: i) simp_all

lemma staggered_loop_Some:
  assumes "hx = [] \<or> int (length hx) < k" and "length hy = length hx"
  shows "staggered_loop i ys len spacing n_odd n_even (Some k) (hx, hy) =
           (take (nat (max 1 k)) (hx @ rows_x (staggered_x_positions len spacing n_odd n_even) i ys),
            take (nat (max 1 k)) (hy @ rows_y (staggered_x_positions len spacing n_odd n_even) i ys))"
  using assms
proof (induction ys arbitrary: i hx hy)
  case Nil
  then show ?case by auto
next
  case (Cons y ys)
  let ?f = "staggered_x_positions len spacing n_odd n_even"
  let ?m = "nat (max 1 k)"
  let ?hx = "hx @ ?f i"
  let ?hy = "hy @ replicate (length (?f i)) y"
  have len: "length ?hy = length ?hx"
    using Cons.prems by simp
  show ?case
  proof (cases "max 1 k \<le> int (length hx + length (?f i))")
    case True
    have rl: "row_loop y (?f i) (Some k) (hx, hy) = (True, take ?m ?hx, take ?m ?hy)"
      by (simp only: row_loop_Some [OF Cons.prems] True if_True)
    from True have mx: "?m \<le> length ?hx" by (simp add: nat_le_iff)
    with len have my: "?m \<le> length ?hy" by simp
    have "staggered_loop i (y # ys) len spacing n_odd n_even (Some k) (hx, hy)
            = (take ?m ?hx, take ?m ?hy)"
      by (simp add: rl Let_def del: take_append)
    moreover have "take ?m (hx @ rows_x ?f i (y # ys)) = take ?m ?hx"
      using mx take_append [of ?m ?hx "rows_x ?f (Suc i) ys"] by simp
    moreover have "take ?m (hy @ rows_y ?f i (y # ys)) = take ?m ?hy"
      using my take_append [of ?m ?hy "rows_y ?f (Suc i) ys"] by simp
    ultimately show ?thesis by (simp only:)
  next
    case False
    have rl: "row_loop y (?f i) (Some k) (hx, hy) = (False, ?hx, ?hy)"
      by (simp only: row_loop_Some [OF Cons.prems] False if_False)
    from False have "length ?hx = 0 \<or> int (length ?hx) < k"
      using below_limit [of k "length ?hx"] by simp
    then have inv: "?hx = [] \<or> int (length ?hx) < k" by simp
    have "staggered_loop i (y # ys) len spacing n_odd n_even (Some k) (hx, hy)
            = staggered_loop (Suc i) ys len spacing n_odd n_even (Some k) (?hx, ?hy)"
      by (simp add: rl Let_def)
    also have "\<dots> = (take ?m (?hx @ rows_x ?f (Suc i) ys), take ?m (?hy @ rows_y ?f (Suc i) ys))"
      by (rule Cons.IH [OF inv len])
    also have "\<dots> = (take ?m (hx @ rows_x ?f i (y # ys)), take ?m (hy @ rows_y ?f i (y # ys)))"
      by simp
    finally show ?thesis .
  qed
qed

lemma staggered_loop_None:
  "staggered_loop i ys len spacing n_odd n_even None (hx, hy) =
           (hx @ rows_x (staggered_x_positions len spacing n_odd n_even) i ys,
            hy @ rows_y (staggered_x_positions len spacing n_odd n_even) i ys)"
proof (induction ys arbitrary: i hx hy)
  case Nil
  show ?case by simp
next
  case (Cons y ys)
  let ?f = "staggered_x_positions len spacing n_odd n_even"
  show ?case
    using Cons.IH [of "Suc i" "hx @ ?f i" "hy @ replicate (length (?f i)) y"]
    by (simp add: row_loop_None Let_def)
qed

lemma square_loop_None:
  "square_loop ys xs None (hx, hy) =
     (hx @ rows_x (\<lambda>_. xs) i ys, hy @ rows_y (\<lambda>_. xs) i ys)"
proof (induction ys arbitrary: i hx hy)
  case Nil
  show ?case by simp
next
  case (Cons y ys)
  show ?case
    using Cons.IH [of "hx @ xs" "hy @ replicate (length xs) y" "Suc i"]
    by (simp add: row_loop_None)
qed

lemma square_loop_Some:
  assumes "hx = [] \<or> int (length hx) < k" and "length hy = length hx"
  shows "square_loop ys xs (Some k) (hx, hy) =
           (take (nat (max 1 k)) (hx @ rows_x (\<lambda>_. xs) i ys),
            take (nat (max 1 k)) (hy @ rows_y (\<lambda>_. xs) i ys))"
  using assms
proof (induction ys arbitrary: i hx hy)
  case Nil
  then show ?case by auto
next
  case (Cons y ys)
  let ?f = "\<lambda>_::nat. xs"
  let ?m = "nat (max 1 k)"
  let ?hx = "hx @ ?f i"
  let ?hy = "hy @ replicate (length (?f i)) y"
  have len: "length ?hy = length ?hx"
    using Cons.prems by simp
  show ?case
  proof (cases "max 1 k \<le> int (length hx + length (?f i))")
    case True
    have rl: "row_loop y (?f i) (Some k) (hx, hy) = (True, take ?m ?hx, take ?m ?hy)"
      by (simp only: row_loop_Some [OF Cons.prems] True if_True)
    from True have mx: "?m \<le> length ?hx" by (simp add: nat_le_iff)
    with len have my: "?m \<le> length ?hy" by simp
    have "square_loop (y # ys) xs (Some k) (hx, hy)
            = (take ?m ?hx, take ?m ?hy)"
      by (simp add: rl Let_def del: take_append)
    moreover have "take ?m (hx @ rows_x ?f i (y # ys)) = take ?m ?hx"
      using mx take_append [of ?m ?hx "rows_x ?f (Suc i) ys"] by simp
    moreover have "take ?m (hy @ rows_y ?f i (y # ys)) = take ?m ?hy"
      using my take_append [of ?m ?hy "rows_y ?f (Suc i) ys"] by simp
    ultimately show ?thesis by (simp only:)
  next
    case False
    have rl: "row_loop y (?f i) (Some k) (hx, hy) = (False, ?hx, ?hy)"
      by (simp only: row_loop_Some [OF Cons.prems] False if_False)
    from False have "length ?hx = 0 \<or> int (length ?hx) < k"
      using below_limit [of k "length ?hx"] by simp
    then have inv: "?hx = [] \<or> int (length ?hx) < k" by simp
    have "square_loop (y # ys) xs (Some k) (hx, hy)
            = square_loop ys xs (Some k) (?hx, ?hy)"
      by (simp add: rl Let_def)
    also have "\<dots> = (take ?m (?hx @ rows_x ?f (Suc i) ys), take ?m (?hy @ rows_y ?f (Suc i) ys))"
      by (rule Cons.IH [OF inv len])
    also have "\<dots> = (take ?m (hx @ rows_x ?f i (y # ys)), take ?m (hy @ rows_y ?f i (y # ys)))"
      by simp
    finally show ?thesis .
  qed
qed

lemma rows_x_nth:
  "r < length ys \<Longrightarrow> j < length (f (i + r))
     \<Longrightarrow> rows_x f i ys ! (row_offset f i r + j) = f (i + r) ! j"
proof (induction ys arbitrary: i r)
  case Nil
  then show ?case by simp
next
  case (Cons y ys)
  show ?case
  proof (cases r)
    case 0
    with Cons.prems show ?thesis by (simp add: nth_append)
  next
    case (Suc r')
    with Cons.prems have "r' < length ys" "j < length (f (Suc i + r'))" by simp_all
    from Cons.IH [OF this] Suc show ?thesis
      by (simp add: nth_append add.assoc)
  qed
qed

lemma rows_y_nth:
  "r < length ys \<Longrightarrow> j < length (f (i + r))
     \<Longrightarrow> rows_y f i ys ! (row_offset f i r + j) = ys ! r"
proof (induction ys arbitrary: i r)
  case Nil
  then show ?case by simp
next
  case (Cons y ys)
  show ?case
  proof (cases r)
    case 0
    with Cons.prems show ?thesis by (simp add: nth_append)
  next
    case (Suc r')
    with Cons.prems have "r' < length ys" "j < length (f (Suc i + r'))" by simp_all
    from Cons.IH [OF this] Suc show ?thesis
      by (simp add: nth_append add.assoc)
  qed
qed

lemma length_rows_x: "length (rows_x f i ys) = row_offset f i (length ys)"
  by (induction ys arbitrary: i) simp_all

lemma row_offset_const: "row_offset (\<lambda>_. xs) i r = r * length xs"
  by (induction r arbitrary: i) simp_all

lemma set_rows_x: "x \<in> set (rows_x f i ys) \<Longrightarrow> \<exists>r < length ys. x \<in> set (f (i + r))"
proof (induction ys arbitrary: i)
  case Nil
  then show ?case by simp
next
  case (Cons y ys)
  from Cons.prems have "x \<in> set (f i) \<or> x \<in> set (rows_x f (Suc i) ys)" by simp
  then show ?case
  proof
    assume "x \<in> set (f i)"
    then have "0 < length (y # ys) \<and> x \<in> set (f (i + 0))" by simp
    then show ?thesis by blast
  next
    assume "x \<in> set (rows_x f (Suc i) ys)"
    from Cons.IH [OF this] obtain r where "r < length ys" "x \<in> set (f (Suc i + r))" by blast
    then have "Suc r < length (y # ys) \<and> x \<in> set (f (i + Suc r))" by simp
    then show ?thesis by blast
  qed
qed

lemma set_rows_y: "set (rows_y f i ys) \<subseteq> set ys"
  by (induction ys arbitrary: i) auto

lemma set_limit: "set (limit n xs) \<subseteq> set xs"
  by (cases n) (auto simp: limit_def dest: in_set_takeD)

lemma length_linspace: "length (linspace a b n) = n"
  by (simp add: linspace_def)

lemma linspace_nth:
  "j < n \<Longrightarrow> linspace a b n ! j = (if n = 1 then a else a + real j * ((b - a) / real (n - 1)))"
  by (auto simp: linspace_def)

lemma linspace_bounds:
  assumes "x \<in> set (linspace a b n)" and "n \<noteq> 1 \<longrightarrow> a \<le> b"
  shows "a \<le> x \<and> x \<le> b \<or> n = 1 \<and> x = a"
proof (cases "n = 1")
  case True
  with assms show ?thesis by (simp add: linspace_def)
next
  case False
  with assms obtain j where j: "j < n" and x: "x = a + real j * ((b - a) / real (n - 1))"
    by (auto simp: linspace_def)
  from False assms have ab: "0 \<le> b - a" by simp
  from j False have n: "0 < real (n - 1)" and jn: "real j \<le> real (n - 1)" by simp_all
  have t0: "0 \<le> real j / real (n - 1)" using n by simp
  have t1: "real j / real (n - 1) \<le> 1" using n jn by simp
  have eq: "x = a + (real j / real (n - 1)) * (b - a)" using x by simp
  have "0 \<le> (real j / real (n - 1)) * (b - a)" using t0 ab by simp
  moreover have "(real j / real (n - 1)) * (b - a) \<le> 1 * (b - a)"
    using t1 ab by (rule mult_right_mono)
  ultimately show ?thesis using eq by simp
qed

lemma py_int_ge:
  assumes "1 \<le> n" and "n \<le> py_int q"
  shows "of_int n \<le> q"
proof (cases "0 \<le> q")
  case True
  with assms show ?thesis by (simp add: py_int_def le_floor_iff)
next
  case False
  then have "\<lceil>q\<rceil> \<le> 0" by (simp add: ceiling_le_iff)
  with assms False show ?thesis by (simp add: py_int_def)
qed

lemma max_py_int_floor: "max 1 (py_int q) = max 1 \<lfloor>q\<rfloor>"
proof (cases "0 \<le> q")
  case True
  then show ?thesis by (simp add: py_int_def)
next
  case False
  then have "\<lceil>q\<rceil> \<le> 0" and "\<lfloor>q\<rfloor> \<le> 0"
    by (simp_all add: ceiling_le_iff floor_le_iff)
  with False show ?thesis by (simp add: py_int_def)
qed

lemma square_loop_limit:
  "square_loop ys xs n ([], []) = (limit n (rows_x (\<lambda>_. xs) 0 ys), limit n (rows_y (\<lambda>_. xs) 0 ys))"
proof (cases n)
  case None
  then show ?thesis using square_loop_None [of ys xs "[]" "[]" 0] by (simp add: limit_def)
next
  case (Some k)
  then show ?thesis using square_loop_Some [of "[]" k "[]" ys xs 0] by (simp add: limit_def)
qed

lemma staggered_loop_limit:
  "staggered_loop 0 ys len spacing n_odd n_even n ([], []) =
     (limit n (rows_x (staggered_x_positions len spacing n_odd n_even) 0 ys),
      limit n (rows_y (staggered_x_positions len spacing n_odd n_even) 0 ys))"
proof (cases n)
  case None
  then show ?thesis
    using staggered_loop_None [of 0 ys len spacing n_odd n_even "[]" "[]"] by (simp add: limit_def)
next
  case (Some k)
  then show ?thesis
    using staggered_loop_Some [of "[]" k "[]" 0 ys len spacing n_odd n_even]
    by (simp add: limit_def)
qed

lemma calculate_square_pattern_eq:
  assumes "0 < burden" and "0 < spacing"
    and "r = max 1 (py_int (width / burden))" and "c = max 1 (py_int (len / spacing))"
    and "Y = linspace (burden / 2) (width - burden / 2) (nat r)"
    and "X = linspace (spacing / 2) (len - spacing / 2) (nat c)"
  shows "calculate_square_pattern len width burden spacing n =
           Inr (limit n (rows_x (\<lambda>_. X) 0 Y), limit n (rows_y (\<lambda>_. X) 0 Y), r, c)"
  using assms
  by (simp add: calculate_square_pattern_def truediv_def square_loop_limit Let_def)

lemma calculate_staggered_pattern_eq:
  assumes "0 < burden" and "0 < spacing"
    and "r = max 1 (py_int (width / burden))"
    and "no = max 1 (py_int ((len - spacing / 2) / spacing) + 1)"
    and "ne = max 1 (py_int ((len - spacing) / spacing) + 1)"
    and "Y = linspace (burden / 2) (width - burden / 2) (nat r)"
  shows "calculate_staggered_pattern len width burden spacing n =
           Inr (limit n (rows_x (staggered_x_positions len spacing no ne) 0 Y),
                limit n (rows_y (staggered_x_positions len spacing no ne) 0 Y), r, no, ne)"
  using assms
  by (simp add: calculate_staggered_pattern_def truediv_def staggered_loop_limit Let_def)


lemma square_pattern_rows:
  assumes "0 < burden" and "0 < spacing"
  shows "calculate_square_pattern len width burden spacing n =
           Inr (limit n (rows_x (\<lambda>_. linspace (spacing / 2) (len - spacing / 2)
                                  (nat (max 1 (py_int (len / spacing))))) 0
                          (linspace (burden / 2) (width - burden / 2)
                             (nat (max 1 (py_int (width / burden)))))),
                limit n (rows_y (\<lambda>_. linspace (spacing / 2) (len - spacing / 2)
                                  (nat (max 1 (py_int (len / spacing))))) 0
                          (linspace (burden / 2) (width - burden / 2)
                             (nat (max 1 (py_int (width / burden)))))),
                max 1 (py_int (width / burden)), max 1 (py_int (len / spacing)))"
  using assms by (rule calculate_square_pattern_eq) (rule refl)+

lemma staggered_pattern_rows:
  assumes "0 < burden" and "0 < spacing"
  shows "calculate_staggered_pattern len width burden spacing n =
           Inr (limit n (rows_x (staggered_x_positions len spacing
                                   (max 1 (py_int ((len - spacing / 2) / spacing) + 1))
                                   (max 1 (py_int ((len - spacing) / spacing) + 1))) 0
                          (linspace (burden / 2) (width - burden / 2)
                             (nat (max 1 (py_int (width / burden)))))),
                limit n (rows_y (staggered_x_positions len spacing
                                   (max 1 (py_int ((len - spacing / 2) / spacing) + 1))
                                   (max 1 (py_int ((len - spacing) / spacing) + 1))) 0
                          (linspace (burden / 2) (width - burden / 2)
                             (nat (max 1 (py_int (width / burden)))))),
                max 1 (py_int (width / burden)),
                max 1 (py_int ((len - spacing / 2) / spacing) + 1),
                max 1 (py_int ((len - spacing) / spacing) + 1))"
  using assms by (rule calculate_staggered_pattern_eq) (rule refl)+

lemma linspace_Cons: "1 \<le> n \<Longrightarrow> \<exists>t. linspace a b n = a # t"
  by (cases "n = 1") (simp_all add: linspace_def upt_conv_Cons)

lemma limit_nonpositive: "k \<le> 0 \<Longrightarrow> limit (Some k) (x # xs) = [x]"
  by (simp add: limit_def max_def)

lemma limit_positive: "1 \<le> k \<Longrightarrow> limit (Some k) xs = take (nat k) xs"
  by (simp add: limit_def max_def)

lemma length_take_below:
  assumes "1 \<le> k" and "k < int (length xs)"
  shows "length (take (nat k) xs) = nat k"
proof -
  from assms have "nat k \<le> length xs" by linarith
  then show ?thesis by (simp add: min_absorb2)
qed

lemma limit_None: "limit None xs = xs"
  by (simp add: limit_def)


lemma square_rows_nth:
  assumes "i < length Y" and "j < length X"
  shows "rows_x (\<lambda>_. X) 0 Y ! (i * length X + j) = X ! j"
    and "rows_y (\<lambda>_. X) 0 Y ! (i * length X + j) = Y ! i"
  using rows_x_nth [of i Y j "\<lambda>_. X" 0] rows_y_nth [of i Y j "\<lambda>_. X" 0] assms
  by (simp_all add: row_offset_const)

lemma linspace_nth_int:
  assumes "1 \<le> n" and "j < nat n"
  shows "linspace a b (nat n) ! j
           = (if n = 1 then a else a + real j * ((b - a) / (real_of_int n - 1)))"
proof -
  from assms have "real (nat n - 1) = real_of_int n - 1" by (simp add: of_nat_diff)
  moreover from assms have "nat n = 1 \<longleftrightarrow> n = 1" by auto
  ultimately show ?thesis using linspace_nth [OF assms(2), of a b] by simp
qed


section \<open>The square layout\<close>

text \<open>
  C1: with a positive burden and spacing and no limit, \<open>calculate_square_pattern\<close> returns
  \<open>max 1 \<lfloor>width / burden\<rfloor>\<close> rows of \<open>max 1 \<lfloor>len / spacing\<rfloor>\<close> holes each, in row-major
  order: the hole with row index \<open>i\<close> and column index \<open>j\<close> is at position
  \<open>i * holes_per_row + j\<close> of both lists. Its x coordinate is the \<open>j\<close>-th of the evenly
  spaced points from \<open>spacing / 2\<close> to \<open>len - spacing / 2\<close> and its y coordinate the
  \<open>i\<close>-th of the evenly spaced points from \<open>burden / 2\<close> to \<open>width - burden / 2\<close>; a
  single point lies at the start of its range.
\<close>

theorem square_pattern_layout:
  assumes "0 < burden" and "0 < spacing"
  shows "\<exists>xs ys.
     calculate_square_pattern len width burden spacing None
       = Inr (xs, ys, max 1 \<lfloor>width / burden\<rfloor>, max 1 \<lfloor>len / spacing\<rfloor>)
     \<and> length xs = nat (max 1 \<lfloor>width / burden\<rfloor>) * nat (max 1 \<lfloor>len / spacing\<rfloor>)
     \<and> length ys = length xs
     \<and> (\<forall>i < nat (max 1 \<lfloor>width / burden\<rfloor>). \<forall>j < nat (max 1 \<lfloor>len / spacing\<rfloor>).
          xs ! (i * nat (max 1 \<lfloor>len / spacing\<rfloor>) + j)
            = (if max 1 \<lfloor>len / spacing\<rfloor> = 1 then spacing / 2
               else spacing / 2 + real j * ((len - spacing / 2 - spacing / 2)
                      / (real_of_int (max 1 \<lfloor>len / spacing\<rfloor>) - 1)))
        \<and> ys ! (i * nat (max 1 \<lfloor>len / spacing\<rfloor>) + j)
            = (if max 1 \<lfloor>width / burden\<rfloor> = 1 then burden / 2
               else burden / 2 + real i * ((width - burden / 2 - burden / 2)
                      / (real_of_int (max 1 \<lfloor>width / burden\<rfloor>) - 1))))"
proof -
  let ?r = "max 1 \<lfloor>width / burden\<rfloor>"
  let ?c = "max 1 \<lfloor>len / spacing\<rfloor>"
  let ?Y = "linspace (burden / 2) (width - burden / 2) (nat ?r)"
  let ?X = "linspace (spacing / 2) (len - spacing / 2) (nat ?c)"
  let ?xs = "rows_x (\<lambda>_. ?X) 0 ?Y"
  let ?ys = "rows_y (\<lambda>_. ?X) 0 ?Y"
  have r: "1 \<le> ?r" and c: "1 \<le> ?c" by simp_all
  have res: "calculate_square_pattern len width burden spacing None = Inr (?xs, ?ys, ?r, ?c)"
    using square_pattern_rows [OF assms, of len width None]
    by (simp add: limit_None max_py_int_floor)
  have lx: "length ?xs = nat ?r * nat ?c"
    by (simp add: length_rows_x row_offset_const length_linspace)
  have ly: "length ?ys = length ?xs"
    by (rule length_rows_y)
  have nth: "?xs ! (i * nat ?c + j)
            = (if ?c = 1 then spacing / 2
               else spacing / 2 + real j * ((len - spacing / 2 - spacing / 2)
                      / (real_of_int ?c - 1)))
        \<and> ?ys ! (i * nat ?c + j)
            = (if ?r = 1 then burden / 2
               else burden / 2 + real i * ((width - burden / 2 - burden / 2)
                      / (real_of_int ?r - 1)))"
    if "i < nat ?r" and "j < nat ?c" for i j
  proof -
    from that have iY: "i < length ?Y" and jX: "j < length ?X"
      by (simp_all only: length_linspace)
    have "?xs ! (i * length ?X + j) = ?X ! j" and "?ys ! (i * length ?X + j) = ?Y ! i"
      using square_rows_nth [OF iY jX] by blast+
    then have "?xs ! (i * nat ?c + j) = ?X ! j" and "?ys ! (i * nat ?c + j) = ?Y ! i"
      by (simp_all only: length_linspace)
    then show ?thesis
      by (simp only: linspace_nth_int [OF c that(2)] linspace_nth_int [OF r that(1)])
  qed
  from res lx ly nth show ?thesis by blast
qed

theorem square_pattern_layout_witness:
  "(0::real) < 3 \<and> (\<exists>xs ys.
     calculate_square_pattern 10 10 3 3 None = Inr (xs, ys, 3, 3)
     \<and> length xs = 9 \<and> length ys = 9
     \<and> xs ! 5 = 17 / 2 \<and> ys ! 5 = 5 \<and> xs ! 0 = 3 / 2 \<and> ys ! 0 = 3 / 2
     \<and> xs ! 8 = 17 / 2 \<and> ys ! 8 = 17 / 2)"
proof -
  have f: "\<lfloor>(10::real) / 3\<rfloor> = 3" by simp
  from square_pattern_layout [of 3 3 10 10] obtain xs ys where
    res: "calculate_square_pattern 10 10 3 3 None = Inr (xs, ys, 3, 3)"
    and len: "length xs = 9" "length ys = length xs"
    and nth: "\<forall>i < 3. \<forall>j < 3. xs ! (i * 3 + j) = 3 / 2 + real j * (7 / 2)
                \<and> ys ! (i * 3 + j) = 3 / 2 + real i * (7 / 2)"
    by (auto simp: f)
  have "xs ! 5 = 17 / 2 \<and> ys ! 5 = 5"
    using nth [rule_format, of 1 2] by simp
  moreover have "xs ! 0 = 3 / 2 \<and> ys ! 0 = 3 / 2"
    using nth [rule_format, of 0 0] by simp
  moreover have "xs ! 8 = 17 / 2 \<and> ys ! 8 = 17 / 2"
    using nth [rule_format, of 2 2] by simp
  ultimately have "xs ! 5 = 17 / 2 \<and> ys ! 5 = 5 \<and> xs ! 0 = 3 / 2 \<and> ys ! 0 = 3 / 2
     \<and> xs ! 8 = 17 / 2 \<and> ys ! 8 = 17 / 2"
    by simp
  with res len show ?thesis by auto
qed


section \<open>The staggered layout\<close>

text \<open>
  C3: the claim is that in a staggered layout every hole of a row with an odd 0-based index
  has the x coordinate of some hole of an unshifted row plus exactly half the spacing. The
  code does not do that. In an area of 10 by 6 with a burden and a spacing of 3 it returns
  the rows \<open>1.5, 5, 8.5\<close> and \<open>3, 5, 7\<close>: the hole at \<open>x = 5\<close> of the second row (position
  4 of the list) lies straight behind a hole of the first row, and would need an unshifted
  hole at \<open>3.5\<close>. In an area of 20 by 20 with a burden and a spacing of 10 it returns the
  rows \<open>5, 15\<close> and \<open>10, 10\<close>: the two holes of the second row are at the same point.
\<close>

theorem staggered_offset_failing_input:
  "calculate_staggered_pattern 10 6 3 3 None
     = Inr ([3 / 2, 5, 17 / 2, 3, 5, 7], [3 / 2, 3 / 2, 3 / 2, 9 / 2, 9 / 2, 9 / 2], 2, 3, 3)
   \<and> [3 / 2, 5, 17 / 2, 3, 5, 7 :: real] ! 4 = 5
   \<and> (5::real) - 3 / 2 \<notin> set [3 / 2, 5, 17 / 2]
   \<and> calculate_staggered_pattern 20 20 10 10 None
     = Inr ([5, 15, 10, 10], [5, 5, 15, 15], 2, 2, 2)"
  by code_simp


section \<open>Bounds of the coordinates\<close>

lemma linspace_within:
  assumes "x \<in> set (linspace a b n)"
    and "lo \<le> a" and "a \<le> hi"
    and "n \<noteq> 1 \<Longrightarrow> a \<le> b \<and> b \<le> hi"
  shows "lo \<le> x \<and> x \<le> hi"
proof (cases "n = 1")
  case True
  with assms(1) have "x = a" by (simp add: linspace_def)
  with assms(2,3) show ?thesis by simp
next
  case False
  with assms(4) have ab: "a \<le> b" and bh: "b \<le> hi" by simp_all
  from linspace_bounds [OF assms(1)] ab False have "a \<le> x \<and> x \<le> b" by simp
  with assms(2) bh show ?thesis by simp
qed

lemma count_ge_two:
  assumes "0 < s" and "nat (max 1 (py_int (q / s) + d)) \<noteq> 1" and "d = 0 \<or> d = 1"
  shows "(2 - real_of_int d) * s \<le> q"
proof -
  from assms(2) have "2 \<le> py_int (q / s) + d" by (simp add: max_def split: if_splits)
  then have "2 - d \<le> py_int (q / s)" by simp
  moreover from assms(3) have "1 \<le> 2 - d" by auto
  ultimately have "real_of_int (2 - d) \<le> q / s" by (rule py_int_ge [rotated])
  with assms(1) show ?thesis by (simp add: pos_le_divide_eq)
qed

lemma axis_within:
  assumes "0 < s" and "s \<le> 2 * L"
    and "x \<in> set (linspace (s / 2) (L - s / 2) (nat (max 1 (py_int (L / s)))))"
  shows "0 \<le> x \<and> x \<le> L"
proof (rule linspace_within [OF assms(3)])
  show "0 \<le> s / 2" using assms(1) by simp
  show "s / 2 \<le> L" using assms(2) by simp
  assume "nat (max 1 (py_int (L / s))) \<noteq> 1"
  then have "(2 - real_of_int 0) * s \<le> L"
    using count_ge_two [OF assms(1), of L 0] by simp
  with assms(1) show "s / 2 \<le> L - s / 2 \<and> L - s / 2 \<le> L" by simp
qed

lemma even_row_within:
  assumes "0 < s" and "s \<le> 2 * L"
    and "x \<in> set (linspace (s / 2) (L - s / 2) (nat (max 1 (py_int ((L - s / 2) / s) + 1))))"
  shows "0 \<le> x \<and> x \<le> L"
proof (rule linspace_within [OF assms(3)])
  show "0 \<le> s / 2" using assms(1) by simp
  show "s / 2 \<le> L" using assms(2) by simp
  assume "nat (max 1 (py_int ((L - s / 2) / s) + 1)) \<noteq> 1"
  then have "(2 - real_of_int 1) * s \<le> L - s / 2"
    using count_ge_two [OF assms(1), of "L - s / 2" 1] by simp
  with assms(1) show "s / 2 \<le> L - s / 2 \<and> L - s / 2 \<le> L" by simp
qed

lemma odd_row_within:
  assumes "0 < s" and "s \<le> L"
    and "x \<in> set (linspace s (L - s) (nat (max 1 (py_int ((L - s) / s) + 1))))"
  shows "0 \<le> x \<and> x \<le> L"
proof (rule linspace_within [OF assms(3)])
  show "0 \<le> s" using assms(1) by simp
  show "s \<le> L" using assms(2) by simp
  assume "nat (max 1 (py_int ((L - s) / s) + 1)) \<noteq> 1"
  then have "(2 - real_of_int 1) * s \<le> L - s"
    using count_ge_two [OF assms(1), of "L - s" 1] by simp
  with assms(1) show "s \<le> L - s \<and> L - s \<le> L" by simp
qed

lemma second_row_exists:
  assumes "0 < burden" and "1 \<le> r" and "r < nat (max 1 (py_int (width / burden)))"
  shows "2 * burden \<le> width"
proof -
  from assms(2,3) have "nat (max 1 (py_int (width / burden) + 0)) \<noteq> 1" by simp
  from count_ge_two [OF assms(1) this] show ?thesis by simp
qed


section \<open>Area containment\<close>

text \<open>
  C4, as amended: with a positive burden and spacing, a burden of at most twice the width
  and a spacing of at most twice the length, every hole that \<open>calculate_square_pattern\<close>
  returns lies in the area, with or without a limit on the number of holes; the same holds
  for \<open>calculate_staggered_pattern\<close> when, in addition, the spacing is at most the length
  whenever there is room for a second row (twice the burden is at most the width).
\<close>

theorem area_containment:
  assumes "0 < burden" and "0 < spacing" and "burden \<le> 2 * width" and "spacing \<le> 2 * len"
  shows "(\<exists>xs ys r c.
            calculate_square_pattern len width burden spacing num_holes = Inr (xs, ys, r, c)
            \<and> (\<forall>x \<in> set xs. 0 \<le> x \<and> x \<le> len) \<and> (\<forall>y \<in> set ys. 0 \<le> y \<and> y \<le> width))
       \<and> ((2 * burden \<le> width \<longrightarrow> spacing \<le> len) \<longrightarrow>
          (\<exists>xs ys r n_odd n_even.
            calculate_staggered_pattern len width burden spacing num_holes
              = Inr (xs, ys, r, n_odd, n_even)
            \<and> (\<forall>x \<in> set xs. 0 \<le> x \<and> x \<le> len) \<and> (\<forall>y \<in> set ys. 0 \<le> y \<and> y \<le> width)))"
proof -
  let ?r = "max 1 (py_int (width / burden))"
  let ?c = "max 1 (py_int (len / spacing))"
  let ?no = "max 1 (py_int ((len - spacing / 2) / spacing) + 1)"
  let ?ne = "max 1 (py_int ((len - spacing) / spacing) + 1)"
  let ?Y = "linspace (burden / 2) (width - burden / 2) (nat ?r)"
  let ?X = "linspace (spacing / 2) (len - spacing / 2) (nat ?c)"
  let ?f = "staggered_x_positions len spacing ?no ?ne"
  have Y: "0 \<le> y \<and> y \<le> width" if "y \<in> set (limit num_holes (rows_y g 0 ?Y))" for y g
  proof -
    from that have "y \<in> set (rows_y g 0 ?Y)"
      using set_limit [of num_holes "rows_y g 0 ?Y"] by (auto dest: subsetD)
    then have "y \<in> set ?Y"
      using set_rows_y [of g 0 ?Y] by (auto dest: subsetD)
    with assms(1,3) show ?thesis by (rule axis_within)
  qed
  have X: "0 \<le> x \<and> x \<le> len" if "x \<in> set (limit num_holes (rows_x (\<lambda>_. ?X) 0 ?Y))" for x
  proof -
    from that have "x \<in> set (rows_x (\<lambda>_. ?X) 0 ?Y)"
      using set_limit [of num_holes "rows_x (\<lambda>_. ?X) 0 ?Y"] by (auto dest: subsetD)
    then have "x \<in> set ?X" by (blast dest: set_rows_x)
    with assms(2,4) show ?thesis by (rule axis_within)
  qed
  have F: "0 \<le> x \<and> x \<le> len"
    if st: "2 * burden \<le> width \<longrightarrow> spacing \<le> len"
      and x: "x \<in> set (limit num_holes (rows_x ?f 0 ?Y))" for x
  proof -
    from x have "x \<in> set (rows_x ?f 0 ?Y)"
      using set_limit [of num_holes "rows_x ?f 0 ?Y"] by (auto dest: subsetD)
    then obtain r where r: "r < length ?Y" and xr: "x \<in> set (?f (0 + r))"
      by (blast dest: set_rows_x)
    show ?thesis
    proof (cases "r mod 2 = 0")
      case True
      with xr have "x \<in> set (linspace (spacing / 2) (len - spacing / 2) (nat ?no))"
        by (simp add: staggered_x_positions_def)
      with assms(2,4) show ?thesis by (rule even_row_within)
    next
      case False
      then have "1 \<le> r" by (cases r) simp_all
      moreover from r have "r < nat ?r" by (simp only: length_linspace)
      ultimately have "2 * burden \<le> width" by (rule second_row_exists [OF assms(1)])
      with st have sl: "spacing \<le> len" by simp
      from False xr have "x \<in> set (linspace spacing (len - spacing) (nat ?ne))"
        by (simp add: staggered_x_positions_def)
      with assms(2) sl show ?thesis by (rule odd_row_within)
    qed
  qed
  have A: "\<exists>xs ys r c.
            calculate_square_pattern len width burden spacing num_holes = Inr (xs, ys, r, c)
            \<and> (\<forall>x \<in> set xs. 0 \<le> x \<and> x \<le> len) \<and> (\<forall>y \<in> set ys. 0 \<le> y \<and> y \<le> width)"
    using square_pattern_rows [OF assms(1,2), of len width num_holes] X Y by blast
  have B: "\<exists>xs ys r n_odd n_even.
            calculate_staggered_pattern len width burden spacing num_holes
              = Inr (xs, ys, r, n_odd, n_even)
            \<and> (\<forall>x \<in> set xs. 0 \<le> x \<and> x \<le> len) \<and> (\<forall>y \<in> set ys. 0 \<le> y \<and> y \<le> width)"
    if "2 * burden \<le> width \<longrightarrow> spacing \<le> len"
    using staggered_pattern_rows [OF assms(1,2), of len width num_holes] F [OF that] Y by blast
  from A B show ?thesis by blast
qed

theorem area_containment_witness:
  "(0::real) < 3 \<and> (3::real) \<le> 2 * 6 \<and> (3::real) \<le> 2 * 10 \<and> (3::real) \<le> 10
   \<and> calculate_square_pattern 10 6 3 3 None
       = Inr ([3 / 2, 5, 17 / 2, 3 / 2, 5, 17 / 2], [3 / 2, 3 / 2, 3 / 2, 9 / 2, 9 / 2, 9 / 2], 2, 3)
   \<and> calculate_staggered_pattern 10 6 3 3 None
       = Inr ([3 / 2, 5, 17 / 2, 3, 5, 7], [3 / 2, 3 / 2, 3 / 2, 9 / 2, 9 / 2, 9 / 2], 2, 3, 3)
   \<and> list_all (\<lambda>x. 0 \<le> x \<and> x \<le> 10) [3 / 2, 5, 17 / 2, 3, 5, 7 :: real]
   \<and> list_all (\<lambda>y. 0 \<le> y \<and> y \<le> 6) [3 / 2, 3 / 2, 3 / 2, 9 / 2, 9 / 2, 9 / 2 :: real]"
proof -
  have sq: "calculate_square_pattern 10 6 3 3 None
       = Inr ([3 / 2, 5, 17 / 2, 3 / 2, 5, 17 / 2], [3 / 2, 3 / 2, 3 / 2, 9 / 2, 9 / 2, 9 / 2], 2, 3)"
    by code_simp
  have st: "calculate_staggered_pattern 10 6 3 3 None
       = Inr ([3 / 2, 5, 17 / 2, 3, 5, 7], [3 / 2, 3 / 2, 3 / 2, 9 / 2, 9 / 2, 9 / 2], 2, 3, 3)"
    by code_simp
  from area_containment [of 3 3 6 10 None] st
  have "(\<forall>x \<in> set [3 / 2, 5, 17 / 2, 3, 5, 7 :: real]. 0 \<le> x \<and> x \<le> 10)
      \<and> (\<forall>y \<in> set [3 / 2, 3 / 2, 3 / 2, 9 / 2, 9 / 2, 9 / 2 :: real]. 0 \<le> y \<and> y \<le> 6)"
    by simp
  with sq st show ?thesis by (simp add: list_all_iff)
qed

text \<open>
  The containment fails without these bounds: in an area of 1 by 1 with a burden and a
  spacing of 4, both functions place their single hole at \<open>(2, 2)\<close>, outside the area.
\<close>

theorem area_containment_counterexample:
  "(0::real) < 4
   \<and> calculate_square_pattern 1 1 4 4 None = Inr ([2], [2], 1, 1)
   \<and> calculate_staggered_pattern 1 1 4 4 None = Inr ([2], [2], 1, 1, 1)
   \<and> (2::real) \<in> set [2] \<and> \<not> (2::real) \<le> 1"
  by code_simp


section \<open>Truncation\<close>

text \<open>
  C10: with a positive burden and spacing, a limit on the number of holes that is zero or
  negative makes both pattern functions return exactly one hole, the first one, at
  \<open>(spacing / 2, burden / 2)\<close>: the limit is tested only after a hole has been appended.
\<close>

theorem nonpositive_limit_one_hole:
  assumes "0 < burden" and "0 < spacing" and "k \<le> 0"
  shows "calculate_square_pattern len width burden spacing (Some k)
           = Inr ([spacing / 2], [burden / 2],
                  max 1 (py_int (width / burden)), max 1 (py_int (len / spacing)))
       \<and> calculate_staggered_pattern len width burden spacing (Some k)
           = Inr ([spacing / 2], [burden / 2], max 1 (py_int (width / burden)),
                  max 1 (py_int ((len - spacing / 2) / spacing) + 1),
                  max 1 (py_int ((len - spacing) / spacing) + 1))"
proof -
  let ?r = "max 1 (py_int (width / burden))"
  let ?c = "max 1 (py_int (len / spacing))"
  let ?no = "max 1 (py_int ((len - spacing / 2) / spacing) + 1)"
  let ?ne = "max 1 (py_int ((len - spacing) / spacing) + 1)"
  let ?Y = "linspace (burden / 2) (width - burden / 2) (nat ?r)"
  let ?X = "linspace (spacing / 2) (len - spacing / 2) (nat ?c)"
  let ?f = "staggered_x_positions len spacing ?no ?ne"
  have r: "1 \<le> nat ?r" and c: "1 \<le> nat ?c" and no: "1 \<le> nat ?no" by simp_all
  obtain ty where Y: "?Y = burden / 2 # ty"
    using linspace_Cons [OF r] by blast
  obtain tx where X: "?X = spacing / 2 # tx"
    using linspace_Cons [OF c] by blast
  have "?f 0 = linspace (spacing / 2) (len - spacing / 2) (nat ?no)"
    by (simp add: staggered_x_positions_def)
  then obtain tf where F: "?f 0 = spacing / 2 # tf"
    using linspace_Cons [OF no] by metis
  have "calculate_square_pattern len width burden spacing (Some k)
          = Inr ([spacing / 2], [burden / 2], ?r, ?c)"
    by (simp add: square_pattern_rows [OF assms(1,2)] X Y limit_nonpositive [OF assms(3)])
  moreover have "calculate_staggered_pattern len width burden spacing (Some k)
          = Inr ([spacing / 2], [burden / 2], ?r, ?no, ?ne)"
    by (simp add: staggered_pattern_rows [OF assms(1,2)] F Y limit_nonpositive [OF assms(3)])
  ultimately show ?thesis by simp
qed

theorem nonpositive_limit_one_hole_witness:
  "calculate_square_pattern 10 10 3 3 (Some 0) = Inr ([3 / 2], [3 / 2], 3, 3)
   \<and> calculate_staggered_pattern 10 10 3 3 (Some (- 2)) = Inr ([3 / 2], [3 / 2], 3, 3, 3)"
  using nonpositive_limit_one_hole [of 3 3 0 10 10] nonpositive_limit_one_hole [of 3 3 "- 2" 10 10]
  by (simp add: py_int_def)

text \<open>
  C5: with a positive burden and spacing, both pattern functions return a layout when
  called without a limit, and for every limit \<open>k\<close> from 1 to below the number of holes of
  that layout, the call with limit \<open>k\<close> returns the first \<open>k\<close> coordinates of it, in the
  same order, each list of length exactly \<open>k\<close>, with the same row and column counts.
\<close>

theorem truncation_is_prefix:
  assumes "0 < burden" and "0 < spacing"
  shows "(\<exists>xs ys r c.
            calculate_square_pattern len width burden spacing None = Inr (xs, ys, r, c)
            \<and> length ys = length xs
            \<and> (\<forall>k. 1 \<le> k \<and> k < int (length xs) \<longrightarrow>
                  calculate_square_pattern len width burden spacing (Some k)
                    = Inr (take (nat k) xs, take (nat k) ys, r, c)
                  \<and> length (take (nat k) xs) = nat k \<and> length (take (nat k) ys) = nat k))
       \<and> (\<exists>xs ys r n_odd n_even.
            calculate_staggered_pattern len width burden spacing None
              = Inr (xs, ys, r, n_odd, n_even)
            \<and> length ys = length xs
            \<and> (\<forall>k. 1 \<le> k \<and> k < int (length xs) \<longrightarrow>
                  calculate_staggered_pattern len width burden spacing (Some k)
                    = Inr (take (nat k) xs, take (nat k) ys, r, n_odd, n_even)
                  \<and> length (take (nat k) xs) = nat k \<and> length (take (nat k) ys) = nat k))"
proof -
  let ?r = "max 1 (py_int (width / burden))"
  let ?c = "max 1 (py_int (len / spacing))"
  let ?no = "max 1 (py_int ((len - spacing / 2) / spacing) + 1)"
  let ?ne = "max 1 (py_int ((len - spacing) / spacing) + 1)"
  let ?Y = "linspace (burden / 2) (width - burden / 2) (nat ?r)"
  let ?X = "linspace (spacing / 2) (len - spacing / 2) (nat ?c)"
  let ?f = "staggered_x_positions len spacing ?no ?ne"
  note sq = square_pattern_rows [OF assms]
  note st = staggered_pattern_rows [OF assms]
  have "calculate_square_pattern len width burden spacing None
          = Inr (rows_x (\<lambda>_. ?X) 0 ?Y, rows_y (\<lambda>_. ?X) 0 ?Y, ?r, ?c)
        \<and> length (rows_y (\<lambda>_. ?X) 0 ?Y) = length (rows_x (\<lambda>_. ?X) 0 ?Y)
        \<and> (\<forall>k. 1 \<le> k \<and> k < int (length (rows_x (\<lambda>_. ?X) 0 ?Y)) \<longrightarrow>
              calculate_square_pattern len width burden spacing (Some k)
                = Inr (take (nat k) (rows_x (\<lambda>_. ?X) 0 ?Y),
                       take (nat k) (rows_y (\<lambda>_. ?X) 0 ?Y), ?r, ?c)
              \<and> length (take (nat k) (rows_x (\<lambda>_. ?X) 0 ?Y)) = nat k
              \<and> length (take (nat k) (rows_y (\<lambda>_. ?X) 0 ?Y)) = nat k)"
    by (simp add: sq limit_None limit_positive length_rows_y length_take_below del: length_take)
  then have A: "\<exists>xs ys r c.
            calculate_square_pattern len width burden spacing None = Inr (xs, ys, r, c)
            \<and> length ys = length xs
            \<and> (\<forall>k. 1 \<le> k \<and> k < int (length xs) \<longrightarrow>
                  calculate_square_pattern len width burden spacing (Some k)
                    = Inr (take (nat k) xs, take (nat k) ys, r, c)
                  \<and> length (take (nat k) xs) = nat k \<and> length (take (nat k) ys) = nat k)"
    by blast
  have "calculate_staggered_pattern len width burden spacing None
          = Inr (rows_x ?f 0 ?Y, rows_y ?f 0 ?Y, ?r, ?no, ?ne)
        \<and> length (rows_y ?f 0 ?Y) = length (rows_x ?f 0 ?Y)
        \<and> (\<forall>k. 1 \<le> k \<and> k < int (length (rows_x ?f 0 ?Y)) \<longrightarrow>
              calculate_staggered_pattern len width burden spacing (Some k)
                = Inr (take (nat k) (rows_x ?f 0 ?Y), take (nat k) (rows_y ?f 0 ?Y), ?r, ?no, ?ne)
              \<and> length (take (nat k) (rows_x ?f 0 ?Y)) = nat k
              \<and> length (take (nat k) (rows_y ?f 0 ?Y)) = nat k)"
    by (simp add: st limit_None limit_positive length_rows_y length_take_below del: length_take)
  then have B: "\<exists>xs ys r n_odd n_even.
            calculate_staggered_pattern len width burden spacing None
              = Inr (xs, ys, r, n_odd, n_even)
            \<and> length ys = length xs
            \<and> (\<forall>k. 1 \<le> k \<and> k < int (length xs) \<longrightarrow>
                  calculate_staggered_pattern len width burden spacing (Some k)
                    = Inr (take (nat k) xs, take (nat k) ys, r, n_odd, n_even)
                  \<and> length (take (nat k) xs) = nat k \<and> length (take (nat k) ys) = nat k)"
    by blast
  from A B show ?thesis by (rule conjI)
qed

theorem truncation_is_prefix_witness:
  "calculate_square_pattern 10 10 3 3 (Some 4)
     = Inr ([3 / 2, 5, 17 / 2, 3 / 2], [3 / 2, 3 / 2, 3 / 2, 5], 3, 3)
   \<and> calculate_staggered_pattern 10 6 3 3 (Some 4)
     = Inr ([3 / 2, 5, 17 / 2, 3], [3 / 2, 3 / 2, 3 / 2, 9 / 2], 2, 3, 3)"
proof -
  have sq: "calculate_square_pattern 10 10 3 3 None
      = Inr ([3 / 2, 5, 17 / 2, 3 / 2, 5, 17 / 2, 3 / 2, 5, 17 / 2],
             [3 / 2, 3 / 2, 3 / 2, 5, 5, 5, 17 / 2, 17 / 2, 17 / 2], 3, 3)"
    by code_simp
  have st: "calculate_staggered_pattern 10 6 3 3 None
      = Inr ([3 / 2, 5, 17 / 2, 3, 5, 7], [3 / 2, 3 / 2, 3 / 2, 9 / 2, 9 / 2, 9 / 2], 2, 3, 3)"
    by code_simp
  have n4: "nat 4 = Suc (Suc (Suc (Suc 0)))" by simp
  from truncation_is_prefix [of 3 3 10 10] sq
  have "calculate_square_pattern 10 10 3 3 (Some 4)
     = Inr ([3 / 2, 5, 17 / 2, 3 / 2], [3 / 2, 3 / 2, 3 / 2, 5], 3, 3)"
    by (auto simp: n4)
  moreover from truncation_is_prefix [of 3 3 10 6] st
  have "calculate_staggered_pattern 10 6 3 3 (Some 4)
     = Inr ([3 / 2, 5, 17 / 2, 3], [3 / 2, 3 / 2, 3 / 2, 9 / 2], 2, 3, 3)"
    by (auto simp: n4)
  ultimately show ?thesis by simp
qed


section \<open>Degenerate geometry\<close>

text \<open>
  C6: when the burden or the spacing is zero or negative, both pattern functions return the
  empty layout (no coordinates, zero rows, zero holes per row) as a value, whatever the
  other arguments are; no division is evaluated, so nothing is raised.
\<close>
theorem degenerate_geometry_empty:
  assumes "burden \<le> 0 \<or> spacing \<le> 0"
  shows "calculate_square_pattern len width burden spacing num_holes = Inr ([], [], 0, 0)
       \<and> calculate_staggered_pattern len width burden spacing num_holes = Inr ([], [], 0, 0, 0)"
  using assms by (simp add: calculate_square_pattern_def calculate_staggered_pattern_def)

theorem degenerate_geometry_empty_witness:
  "((0::real) \<le> 0 \<or> (3::real) \<le> 0)
   \<and> calculate_square_pattern 10 10 0 3 None = Inr ([], [], 0, 0)
   \<and> calculate_staggered_pattern 10 10 0 3 None = Inr ([], [], 0, 0, 0)
   \<and> calculate_square_pattern 10 10 3 (-1) (Some 5) = Inr ([], [], 0, 0)
   \<and> calculate_staggered_pattern 10 10 3 (-1) (Some 5) = Inr ([], [], 0, 0, 0)"
  using degenerate_geometry_empty [of 0 3 10 10 None]
    degenerate_geometry_empty [of 3 "-1" 10 10 "Some 5"]
  by simp


section \<open>Charge, powder factor and rock hardness\<close>

text \<open>
  C2: the explosive column length is the bench height plus the subdrilling minus the
  stemming, with no clamping, so it is negative when the stemming exceeds the other two;
  the charge per hole is the density times \<open>\<pi> d\<^sup>2 / 4\<close> times that length, so with a
  positive density and a hole diameter other than zero a negative column gives a negative
  charge.
\<close>
theorem charge_column_not_clamped:
  "explosive_column_length bench_height subdrilling stemming
     = bench_height + subdrilling - stemming
   \<and> (bench_height + subdrilling < stemming
        \<longrightarrow> explosive_column_length bench_height subdrilling stemming < 0)
   \<and> charge_per_hole explosive_density hole_diameter bench_height subdrilling stemming
     = explosive_density * pi * (real_of_int hole_diameter / 1000)\<^sup>2 / 4
         * (bench_height + subdrilling - stemming)
   \<and> (0 < explosive_density \<and> hole_diameter \<noteq> 0 \<and> bench_height + subdrilling < stemming
        \<longrightarrow> charge_per_hole explosive_density hole_diameter bench_height subdrilling stemming < 0)"
proof -
  have neg: "charge_per_hole explosive_density hole_diameter bench_height subdrilling stemming < 0"
    if "0 < explosive_density" "hole_diameter \<noteq> 0" "bench_height + subdrilling < stemming"
  proof -
    from that have "0 < explosive_density * (pi * (real_of_int hole_diameter / 1000)\<^sup>2 / 4)"
      by simp
    moreover from that have "bench_height + subdrilling - stemming < 0" by simp
    ultimately have "explosive_density * (pi * (real_of_int hole_diameter / 1000)\<^sup>2 / 4)
        * (bench_height + subdrilling - stemming) < 0"
      by (rule mult_pos_neg)
    then show ?thesis
      by (simp add: charge_per_hole_def available_hole_volume_def explosive_column_length_def
          hole_diameter_m_def mult.assoc)
  qed
  show ?thesis
    using neg
    by (simp add: charge_per_hole_def available_hole_volume_def explosive_column_length_def
        hole_diameter_m_def)
qed

theorem charge_column_not_clamped_witness:
  "explosive_column_length 1 2 5 = -2
   \<and> charge_per_hole 850 200 1 2 5 = - 17 * pi
   \<and> charge_per_hole 850 200 1 2 5 < 0"
  using charge_column_not_clamped [of 1 2 5 850 200] by (simp add: power2_eq_square)

text \<open>
  C8: for a positive total explosive mass and a positive blast volume, the product of the
  two powder factors is 1.
\<close>
theorem powder_factor_symmetry:
  assumes "0 < total_explosive" and "0 < blast_volume"
  shows "powder_factor_vol_per_explosive blast_volume total_explosive
           * powder_factor_explosive_per_vol blast_volume total_explosive = 1"
  using assms
  by (simp add: powder_factor_vol_per_explosive_def powder_factor_explosive_per_vol_def)

theorem powder_factor_symmetry_witness:
  "(0::real) < 176 \<and> (0::real) < 4000
   \<and> powder_factor_vol_per_explosive 4000 176 * powder_factor_explosive_per_vol 4000 176 = 1
   \<and> powder_factor_vol_per_explosive 4000 176 = 250 / 11"
  using powder_factor_symmetry [of 176 4000]
  by (simp add: powder_factor_vol_per_explosive_def)

text \<open>
  C9: the rock hardness is the first band of the ladder whose two conditions both hold:
  each hardness is returned exactly when its own pair of conditions holds and no earlier
  pair does, and the last one when no pair holds. A P-wave velocity of 3.0 with a density
  of 2.3 is Soft, and 6.0 with 3.0 is Very Hard.
\<close>
theorem rock_hardness_ladder:
  "(rock_hardness v d = ''Very Soft'' \<longleftrightarrow> v < 2.5 \<and> d < 2.2)
   \<and> (rock_hardness v d = ''Soft'' \<longleftrightarrow> \<not> (v < 2.5 \<and> d < 2.2) \<and> v < 3.5 \<and> d < 2.5)
   \<and> (rock_hardness v d = ''Medium''
        \<longleftrightarrow> \<not> (v < 3.5 \<and> d < 2.5) \<and> v < 4.5 \<and> d < 2.7)
   \<and> (rock_hardness v d = ''Hard''
        \<longleftrightarrow> \<not> (v < 4.5 \<and> d < 2.7) \<and> v < 5.5 \<and> d < 2.9)
   \<and> (rock_hardness v d = ''Very Hard'' \<longleftrightarrow> \<not> (v < 5.5 \<and> d < 2.9))
   \<and> rock_hardness 3.0 2.3 = ''Soft''
   \<and> rock_hardness 6.0 3.0 = ''Very Hard''"
  by (simp add: rock_hardness_def rock_classification_def)

theorem rock_hardness_ladder_witness:
  "rock_hardness 2.0 3.0 = ''Very Hard'' \<and> rock_hardness 2.0 2.0 = ''Very Soft''
   \<and> rock_hardness 4.0 2.0 = ''Medium'' \<and> rock_hardness 2.0 2.8 = ''Hard''"
  using rock_hardness_ladder [of 2 3] rock_hardness_ladder [of 2 2]
    rock_hardness_ladder [of 4 2] rock_hardness_ladder [of 2 "2.8"]
  by simp

end
